theory Spec2Isabelle
  imports Main "HOL-Library.Word"
begin

section \<open>Memory, undefined behaviour and exceptions\<close>

text \<open>
  Pointers and \<open>size_t\<close> are 64-bit words. An operation either returns, has undefined
  behaviour, or throws; a thrown exception carries the heap as the caller finds it.
\<close>

type_synonym addr = "64 word"

definition nullptr :: addr where
  "nullptr = 0"

datatype ('e, 's) failure = undefined_behavior | throws 'e 's

definition and_then :: "'e + 'a \<Rightarrow> ('a \<Rightarrow> 'e + 'b) \<Rightarrow> 'e + 'b" where
  "and_then m f = (case m of Inl e \<Rightarrow> Inl e | Inr x \<Rightarrow> f x)"

section \<open>lec20/src/env.h: environments\<close>

text \<open>
  \<open>Symbol\<close> comes from \<open>symbol.h\<close>; \<open>env.h\<close> compares symbols with \<open>==\<close> and
  reads \<open>name()\<close> for the exception's message, so a key is a value of any type \<open>'k\<close>,
  compared with \<open>=\<close>. A \<open>node_ptr\<close> is a \<open>std::shared_ptr<node>\<close>, here the address of
  the node or \<open>nullptr\<close>; shared ownership keeps every node alive that some environment
  reaches. An \<open>env_ptr\<close> is its only member, \<open>head_\<close>.
\<close>

record ('k, 'v) node =
  key :: 'k
  "value" :: 'v
  "next" :: addr

type_synonym ('k, 'v) store = "addr \<rightharpoonup> ('k, 'v) node"

type_synonym env_ptr = addr

datatype 'k env_exn = binding_not_found 'k | make_shared_bad_alloc

definition empty_env :: env_ptr where
  "empty_env = nullptr"

text \<open>
  \<open>lookup\<close>: the loop over \<open>curr\<close>, written \<open>cur\<close>. It is a \<open>const\<close> member, so its
  exception carries no store.
\<close>

partial_function (option) lookup_loop ::
  "('k, 'v) store \<Rightarrow> addr \<Rightarrow> 'k \<Rightarrow> (('k env_exn, unit) failure + 'v) option" where
  "lookup_loop h cur k =
     (if cur = nullptr then Some (Inl (throws (binding_not_found k) ()))
      else case h cur of None \<Rightarrow> Some (Inl undefined_behavior)
        | Some n \<Rightarrow> if key n = k then Some (Inr (value n)) else lookup_loop h (next n) k)"

definition lookup ::
  "env_ptr \<Rightarrow> 'k \<Rightarrow> ('k, 'v) store \<Rightarrow> (('k env_exn, unit) failure + 'v) option" where
  "lookup e k h = lookup_loop h e k"

partial_function (option) update_loop ::
  "('k, 'v) store \<Rightarrow> addr \<Rightarrow> 'k \<Rightarrow> 'v
     \<Rightarrow> (('k env_exn, ('k, 'v) store) failure + ('k, 'v) store) option" where
  "update_loop h cur k v =
     (if cur = nullptr then Some (Inl (throws (binding_not_found k) h))
      else case h cur of None \<Rightarrow> Some (Inl undefined_behavior)
        | Some n \<Rightarrow> if key n = k then Some (Inr (h(cur \<mapsto> n\<lparr>value := v\<rparr>)))
            else update_loop h (next n) k v)"

definition update ::
  "env_ptr \<Rightarrow> 'k \<Rightarrow> 'v \<Rightarrow> ('k, 'v) store
     \<Rightarrow> (('k env_exn, ('k, 'v) store) failure + ('k, 'v) store) option" where
  "update e k v h = update_loop h e k v"

text \<open>
  \<open>extend\<close> (\<open>extend_env\<close> here): \<open>env_ptr{key, value, head_}\<close>, that is
  \<open>std::make_shared<node>(key, value, next)\<close>. \<open>alloc h\<close> is the address of the new
  node in store \<open>h\<close>, or \<open>None\<close> when the allocation throws.
\<close>

definition extend_env ::
  "(('k, 'v) store \<Rightarrow> addr option) \<Rightarrow> env_ptr \<Rightarrow> 'k \<Rightarrow> 'v \<Rightarrow> ('k, 'v) store
     \<Rightarrow> ('k env_exn, ('k, 'v) store) failure + env_ptr \<times> ('k, 'v) store" where
  "extend_env alloc e k v h =
     (case alloc h of None \<Rightarrow> Inl (throws make_shared_bad_alloc h)
      | Some p \<Rightarrow> Inr (p, h(p \<mapsto> \<lparr>key = k, value = v, next = e\<rparr>)))"

text \<open>The overload taking a \<open>std::string\<close>; \<open>intern\<close> comes from \<open>symbol.h\<close>.\<close>

definition extend_env_string ::
  "(string \<Rightarrow> 'k) \<Rightarrow> (('k, 'v) store \<Rightarrow> addr option) \<Rightarrow> env_ptr \<Rightarrow> string \<Rightarrow> 'v
     \<Rightarrow> ('k, 'v) store \<Rightarrow> ('k env_exn, ('k, 'v) store) failure + env_ptr \<times> ('k, 'v) store" where
  "extend_env_string intern alloc e s v h = extend_env alloc e (intern s) v h"

text \<open>
  What an environment holds: the nodes from \<open>head_\<close> to \<open>nullptr\<close>, newest first, each
  with its address, key and value.
\<close>

fun env_rep :: "('k, 'v) store \<Rightarrow> addr \<Rightarrow> (addr \<times> 'k \<times> 'v) list \<Rightarrow> bool" where
  "env_rep h a [] = (a = nullptr)"
| "env_rep h a ((x, k, v) # bs) =
     (a = x \<and> a \<noteq> nullptr \<and>
      (case h a of None \<Rightarrow> False
       | Some n \<Rightarrow> key n = k \<and> value n = v \<and> env_rep h (next n) bs))"

text \<open>The nearest binding of a key, and the bindings with the nearest one's value replaced.\<close>

fun nearest :: "'k \<Rightarrow> (addr \<times> 'k \<times> 'v) list \<Rightarrow> (addr \<times> 'v) option" where
  "nearest k [] = None"
| "nearest k ((x, k', v) # bs) = (if k' = k then Some (x, v) else nearest k bs)"

fun overwrite :: "'k \<Rightarrow> 'v \<Rightarrow> (addr \<times> 'k \<times> 'v) list \<Rightarrow> (addr \<times> 'k \<times> 'v) list" where
  "overwrite k w [] = []"
| "overwrite k w ((x, k', v) # bs) =
     (if k' = k then (x, k', w) # bs else (x, k', v) # overwrite k w bs)"

definition fresh_node_alloc :: "(('k, 'v) store \<Rightarrow> addr option) \<Rightarrow> bool" where
  "fresh_node_alloc alloc \<longleftrightarrow> (\<forall>h p. alloc h = Some p \<longrightarrow> h p = None \<and> p \<noteq> nullptr)"

section \<open>lec18/src/Sentinel.h: the deque\<close>

text \<open>
  A member whose name ends in an underscore is written with \<open>_impl\<close> here
  (\<open>push_back_\<close> is \<open>push_back_impl\<close>).

  \<open>struct node_base_ { node_base_* prev; node_base_* next; }\<close> and
  \<open>struct node_ : node_base_ { T data; }\<close>: a cell without data is a plain
  \<open>node_base_\<close> (a sentinel), a cell with data is a \<open>node_\<close>.
\<close>

record 'a cell =
  prev :: addr
  "next" :: addr
  data :: "'a option"

text \<open>
  A \<open>Deque\<close> object at address \<open>d\<close> is its embedded \<open>sentinel_\<close>, the cell at
  \<open>d\<close>, and its \<open>size_\<close>, \<open>sizes \<sigma> d\<close>. Heap nodes live in \<open>cells\<close> too.
\<close>

record 'a heap =
  cells :: "addr \<rightharpoonup> 'a cell"
  sizes :: "addr \<rightharpoonup> 64 word"

datatype deque_exn = bad_alloc | element_constructor_threw

type_synonym ('a, 'r) outcome = "(deque_exn, 'a heap) failure + 'r"

text \<open>Reading and writing through a \<open>node_base_*\<close>; a pointer to no live object is undefined.\<close>

definition get_prev :: "addr \<Rightarrow> 'a heap \<Rightarrow> ('a, addr) outcome" where
  "get_prev p \<sigma> = (case cells \<sigma> p of None \<Rightarrow> Inl undefined_behavior | Some c \<Rightarrow> Inr (prev c))"

definition get_next :: "addr \<Rightarrow> 'a heap \<Rightarrow> ('a, addr) outcome" where
  "get_next p \<sigma> = (case cells \<sigma> p of None \<Rightarrow> Inl undefined_behavior | Some c \<Rightarrow> Inr (next c))"

definition set_prev :: "addr \<Rightarrow> addr \<Rightarrow> 'a heap \<Rightarrow> ('a, 'a heap) outcome" where
  "set_prev p q \<sigma> = (case cells \<sigma> p of None \<Rightarrow> Inl undefined_behavior
     | Some c \<Rightarrow> Inr (\<sigma>\<lparr>cells := (cells \<sigma>)(p \<mapsto> c\<lparr>prev := q\<rparr>)\<rparr>))"

definition set_next :: "addr \<Rightarrow> addr \<Rightarrow> 'a heap \<Rightarrow> ('a, 'a heap) outcome" where
  "set_next p q \<sigma> = (case cells \<sigma> p of None \<Rightarrow> Inl undefined_behavior
     | Some c \<Rightarrow> Inr (\<sigma>\<lparr>cells := (cells \<sigma>)(p \<mapsto> c\<lparr>next := q\<rparr>)\<rparr>))"

text \<open>\<open>as_node()\<close>: the downcast to \<open>node_*\<close> is undefined on a cell that is no \<open>node_\<close>.\<close>

definition as_node :: "addr \<Rightarrow> 'a heap \<Rightarrow> ('a, addr) outcome" where
  "as_node p \<sigma> = (case cells \<sigma> p of None \<Rightarrow> Inl undefined_behavior
     | Some c \<Rightarrow> (case data c of None \<Rightarrow> Inl undefined_behavior | Some v \<Rightarrow> Inr p))"

definition get_data :: "addr \<Rightarrow> 'a heap \<Rightarrow> ('a, 'a) outcome" where
  "get_data p \<sigma> = (case cells \<sigma> p of None \<Rightarrow> Inl undefined_behavior
     | Some c \<Rightarrow> (case data c of None \<Rightarrow> Inl undefined_behavior | Some v \<Rightarrow> Inr v))"

text \<open>\<open>delete p\<close> for a \<open>node_* p\<close>: only a live heap node may be deleted.\<close>

definition delete_node :: "addr \<Rightarrow> 'a heap \<Rightarrow> ('a, 'a heap) outcome" where
  "delete_node p \<sigma> = (case cells \<sigma> p of None \<Rightarrow> Inl undefined_behavior
     | Some c \<Rightarrow> (case data c of None \<Rightarrow> Inl undefined_behavior
         | Some v \<Rightarrow> Inr (\<sigma>\<lparr>cells := (cells \<sigma>)(p := None)\<rparr>)))"

definition size_deque :: "addr \<Rightarrow> 'a heap \<Rightarrow> ('a, 64 word) outcome" where
  "size_deque this \<sigma> = (case sizes \<sigma> this of None \<Rightarrow> Inl undefined_behavior | Some n \<Rightarrow> Inr n)"

definition set_size :: "addr \<Rightarrow> 64 word \<Rightarrow> 'a heap \<Rightarrow> ('a, 'a heap) outcome" where
  "set_size this n \<sigma> = (case sizes \<sigma> this of None \<Rightarrow> Inl undefined_behavior
     | Some m \<Rightarrow> Inr (\<sigma>\<lparr>sizes := (sizes \<sigma>)(this \<mapsto> n)\<rparr>))"

definition empty_deque :: "addr \<Rightarrow> 'a heap \<Rightarrow> ('a, bool) outcome" where
  "empty_deque this \<sigma> = and_then (size_deque this \<sigma>) (\<lambda>n. Inr (n = 0))"

definition head_impl :: "addr \<Rightarrow> 'a heap \<Rightarrow> ('a, addr) outcome" where
  "head_impl this \<sigma> = and_then (get_next this \<sigma>) (\<lambda>n. as_node n \<sigma>)"

definition tail_impl :: "addr \<Rightarrow> 'a heap \<Rightarrow> ('a, addr) outcome" where
  "tail_impl this \<sigma> = and_then (get_prev this \<sigma>) (\<lambda>n. as_node n \<sigma>)"

text \<open>\<open>size_ = 0; sentinel_.next = sentinel_.prev = &sentinel_;\<close>\<close>

definition set_empty_impl :: "addr \<Rightarrow> 'a heap \<Rightarrow> ('a, 'a heap) outcome" where
  "set_empty_impl this \<sigma> =
     and_then (set_size this 0 \<sigma>) (\<lambda>\<sigma>1.
     and_then (set_prev this this \<sigma>1) (\<lambda>\<sigma>2.
     set_next this this \<sigma>2))"

text \<open>
  \<open>sentinel_ = other.sentinel_; size_ = other.size_; other.set_empty_();\<close> when the
  other deque is not empty. The assignment copies the two links of the other sentinel.
\<close>

definition move_from_impl :: "addr \<Rightarrow> addr \<Rightarrow> 'a heap \<Rightarrow> ('a, 'a heap) outcome" where
  "move_from_impl this other \<sigma> =
     and_then (empty_deque other \<sigma>) (\<lambda>e.
       if e then set_empty_impl this \<sigma>
       else
         and_then (get_prev other \<sigma>) (\<lambda>op.
         and_then (get_next other \<sigma>) (\<lambda>on.
         and_then (set_prev this op \<sigma>) (\<lambda>\<sigma>1.
         and_then (set_next this on \<sigma>1) (\<lambda>\<sigma>2.
         and_then (size_deque other \<sigma>2) (\<lambda>n.
         and_then (set_size this n \<sigma>2) (\<lambda>\<sigma>3.
         set_empty_impl other \<sigma>3)))))))"

text \<open>
  Storage for a new \<open>Deque\<close> object at \<open>this\<close>, before the constructor body runs: the
  sentinel's links are \<open>nullptr\<close> by their default member initialisers; \<open>size_\<close> is not
  initialised (no constructor reads it before assigning it) and holds 0 here.
\<close>

definition new_object :: "addr \<Rightarrow> 'a heap \<Rightarrow> 'a heap" where
  "new_object this \<sigma> =
     \<sigma>\<lparr>cells := (cells \<sigma>)(this \<mapsto> \<lparr>prev = nullptr, next = nullptr, data = None\<rparr>),
       sizes := (sizes \<sigma>)(this \<mapsto> 0)\<rparr>"

definition Deque :: "addr \<Rightarrow> 'a heap \<Rightarrow> ('a, 'a heap) outcome" where
  "Deque this \<sigma> = set_empty_impl this (new_object this \<sigma>)"

definition front :: "addr \<Rightarrow> 'a heap \<Rightarrow> ('a, 'a) outcome" where
  "front this \<sigma> = and_then (head_impl this \<sigma>) (\<lambda>h. get_data h \<sigma>)"

definition back_deque :: "addr \<Rightarrow> 'a heap \<Rightarrow> ('a, 'a) outcome" where
  "back_deque this \<sigma> = and_then (tail_impl this \<sigma>) (\<lambda>t. get_data t \<sigma>)"

text \<open>
  \<open>new node_(args...)\<close>. The allocator and the constructor of \<open>T\<close> are not part of the
  file, so they are parameters: \<open>alloc \<sigma>\<close> is the address \<open>operator new\<close> returns in
  heap \<open>\<sigma>\<close>, or \<open>None\<close> when it throws \<open>std::bad_alloc\<close>; \<open>ctor args\<close> is the element
  \<open>T(args...)\<close>, or \<open>None\<close> when that constructor throws (the storage is then released
  again). The new node's links are \<open>nullptr\<close>.
\<close>

definition new_node_impl ::
  "('a heap \<Rightarrow> addr option) \<Rightarrow> ('b \<Rightarrow> 'a option) \<Rightarrow> 'b \<Rightarrow> 'a heap \<Rightarrow> ('a, addr \<times> 'a heap) outcome" where
  "new_node_impl alloc ctor args \<sigma> =
     (case alloc \<sigma> of None \<Rightarrow> Inl (throws bad_alloc \<sigma>)
      | Some p \<Rightarrow>
         (case ctor args of None \<Rightarrow> Inl (throws element_constructor_threw \<sigma>)
          | Some v \<Rightarrow>
             Inr (p, \<sigma>\<lparr>cells := (cells \<sigma>)(p \<mapsto> \<lparr>prev = nullptr, next = nullptr, data = Some v\<rparr>)\<rparr>)))"

definition incr_size :: "addr \<Rightarrow> 'a heap \<Rightarrow> ('a, 'a heap) outcome" where
  "incr_size this \<sigma> = and_then (size_deque this \<sigma>) (\<lambda>n. set_size this (n + 1) \<sigma>)"

definition decr_size :: "addr \<Rightarrow> 'a heap \<Rightarrow> ('a, 'a heap) outcome" where
  "decr_size this \<sigma> = and_then (size_deque this \<sigma>) (\<lambda>n. set_size this (n - 1) \<sigma>)"

definition push_front_impl :: "addr \<Rightarrow> addr \<Rightarrow> 'a heap \<Rightarrow> ('a, 'a heap) outcome" where
  "push_front_impl this new_node \<sigma> =
     and_then (get_next this \<sigma>) (\<lambda>h.
     and_then (set_next new_node h \<sigma>) (\<lambda>\<sigma>1.
     and_then (set_prev new_node this \<sigma>1) (\<lambda>\<sigma>2.
     and_then (get_next new_node \<sigma>2) (\<lambda>n.
     and_then (set_prev n new_node \<sigma>2) (\<lambda>\<sigma>3.
     and_then (get_prev new_node \<sigma>3) (\<lambda>p.
     and_then (set_next p new_node \<sigma>3) (\<lambda>\<sigma>4.
     incr_size this \<sigma>4)))))))"

definition push_front ::
  "('a heap \<Rightarrow> addr option) \<Rightarrow> ('a \<Rightarrow> 'a option) \<Rightarrow> addr \<Rightarrow> 'a \<Rightarrow> 'a heap \<Rightarrow> ('a, 'a heap) outcome" where
  "push_front alloc ctor this v \<sigma> =
     and_then (new_node_impl alloc ctor v \<sigma>) (\<lambda>(n, \<sigma>1). push_front_impl this n \<sigma>1)"

text \<open>
  \<open>emplace_front\<close>: \<open>push_front_(new node_(std::forward(args)...))\<close>. \<open>std::forward\<close> is
  named without its template argument, which a call cannot deduce, so the expansion is
  well-formed only for the empty pack: the one call that compiles is \<open>emplace_front()\<close>,
  and it constructs \<open>T()\<close>. The argument list is therefore of type \<open>unit\<close>.
\<close>

definition emplace_front ::
  "('a heap \<Rightarrow> addr option) \<Rightarrow> (unit \<Rightarrow> 'a option) \<Rightarrow> addr \<Rightarrow> unit \<Rightarrow> 'a heap \<Rightarrow> ('a, 'a heap) outcome" where
  "emplace_front alloc ctor this args \<sigma> =
     and_then (new_node_impl alloc ctor args \<sigma>) (\<lambda>(n, \<sigma>1). push_front_impl this n \<sigma>1)"

definition push_back_impl :: "addr \<Rightarrow> addr \<Rightarrow> 'a heap \<Rightarrow> ('a, 'a heap) outcome" where
  "push_back_impl this new_node \<sigma> =
     and_then (get_prev this \<sigma>) (\<lambda>t.
     and_then (set_prev new_node t \<sigma>) (\<lambda>\<sigma>1.
     and_then (set_next new_node this \<sigma>1) (\<lambda>\<sigma>2.
     and_then (get_next new_node \<sigma>2) (\<lambda>n.
     and_then (set_prev n new_node \<sigma>2) (\<lambda>\<sigma>3.
     and_then (get_prev new_node \<sigma>3) (\<lambda>p.
     and_then (set_next p new_node \<sigma>3) (\<lambda>\<sigma>4.
     incr_size this \<sigma>4)))))))"

definition push_back ::
  "('a heap \<Rightarrow> addr option) \<Rightarrow> ('a \<Rightarrow> 'a option) \<Rightarrow> addr \<Rightarrow> 'a \<Rightarrow> 'a heap \<Rightarrow> ('a, 'a heap) outcome" where
  "push_back alloc ctor this v \<sigma> =
     and_then (new_node_impl alloc ctor v \<sigma>) (\<lambda>(n, \<sigma>1). push_back_impl this n \<sigma>1)"

definition emplace_back ::
  "('a heap \<Rightarrow> addr option) \<Rightarrow> ('b \<Rightarrow> 'a option) \<Rightarrow> addr \<Rightarrow> 'b \<Rightarrow> 'a heap \<Rightarrow> ('a, 'a heap) outcome" where
  "emplace_back alloc ctor this args \<sigma> =
     and_then (new_node_impl alloc ctor args \<sigma>) (\<lambda>(n, \<sigma>1). push_back_impl this n \<sigma>1)"

definition pop_front :: "addr \<Rightarrow> 'a heap \<Rightarrow> ('a, 'a heap) outcome" where
  "pop_front this \<sigma> =
     and_then (head_impl this \<sigma>) (\<lambda>head.
     and_then (get_next head \<sigma>) (\<lambda>new_head.
     and_then (delete_node head \<sigma>) (\<lambda>\<sigma>1.
     and_then (set_next this new_head \<sigma>1) (\<lambda>\<sigma>2.
     and_then (set_prev new_head this \<sigma>2) (\<lambda>\<sigma>3.
     decr_size this \<sigma>3)))))"

definition pop_back :: "addr \<Rightarrow> 'a heap \<Rightarrow> ('a, 'a heap) outcome" where
  "pop_back this \<sigma> =
     and_then (tail_impl this \<sigma>) (\<lambda>tail.
     and_then (get_prev tail \<sigma>) (\<lambda>new_tail.
     and_then (delete_node tail \<sigma>) (\<lambda>\<sigma>1.
     and_then (set_prev this new_tail \<sigma>1) (\<lambda>\<sigma>2.
     and_then (set_next new_tail this \<sigma>2) (\<lambda>\<sigma>3.
     decr_size this \<sigma>3)))))"

text \<open>\<open>clear()\<close>: \<open>while (!empty()) pop_front();\<close>. Each pop decrements \<open>size_\<close>.\<close>

function clear :: "addr \<Rightarrow> 'a heap \<Rightarrow> ('a, 'a heap) outcome" where
  "clear this \<sigma> =
     (case empty_deque this \<sigma> of Inl e \<Rightarrow> Inl e
      | Inr e \<Rightarrow> if e then Inr \<sigma>
          else (case pop_front this \<sigma> of Inl e \<Rightarrow> Inl e | Inr \<sigma>' \<Rightarrow> clear this \<sigma>'))"
  by pat_completeness auto
termination
proof (relation "measure (\<lambda>(this, \<sigma>). case sizes \<sigma> this of None \<Rightarrow> 0 | Some n \<Rightarrow> unat n)")
  show "wf (measure (\<lambda>(this, \<sigma> :: 'a heap). case sizes \<sigma> this of None \<Rightarrow> 0 | Some n \<Rightarrow> unat n))"
    by simp
next
  fix this :: addr and \<sigma> :: "'a heap" and e \<sigma>'
  assume e: "empty_deque this \<sigma> = Inr e" and ne: "\<not> e" and p: "pop_front this \<sigma> = Inr \<sigma>'"
  from e ne obtain n where n: "sizes \<sigma> this = Some n" "n \<noteq> 0"
    by (auto simp: empty_deque_def size_deque_def and_then_def split: option.splits)
  from p n(1) have "sizes \<sigma>' this = Some (n - 1)"
    by (auto simp: pop_front_def and_then_def head_impl_def get_next_def as_node_def
        delete_node_def set_next_def set_prev_def decr_size_def size_deque_def set_size_def
        split: sum.splits option.splits if_splits)
  moreover have "unat (n - 1) < unat n"
    using n(2) by (simp add: unat_minus_one unat_gt_0)
  ultimately show "((this, \<sigma>'), (this, \<sigma>))
      \<in> measure (\<lambda>(this, \<sigma>). case sizes \<sigma> this of None \<Rightarrow> 0 | Some n \<Rightarrow> unat n)"
    using n(1) by simp
qed

declare clear.simps [simp del]

text \<open>
  \<open>std::swap(sentinel_, other.sentinel_)\<close> and \<open>std::swap(size_, other.size_)\<close>:
  both values are read, then each is stored in the other place.
\<close>

definition swap_sentinels :: "addr \<Rightarrow> addr \<Rightarrow> 'a heap \<Rightarrow> ('a, 'a heap) outcome" where
  "swap_sentinels a b \<sigma> =
     and_then (get_prev a \<sigma>) (\<lambda>ap.
     and_then (get_next a \<sigma>) (\<lambda>an.
     and_then (get_prev b \<sigma>) (\<lambda>bp.
     and_then (get_next b \<sigma>) (\<lambda>bn.
     and_then (set_prev a bp \<sigma>) (\<lambda>\<sigma>1.
     and_then (set_next a bn \<sigma>1) (\<lambda>\<sigma>2.
     and_then (set_prev b ap \<sigma>2) (\<lambda>\<sigma>3.
     set_next b an \<sigma>3)))))))"

definition swap_sizes :: "addr \<Rightarrow> addr \<Rightarrow> 'a heap \<Rightarrow> ('a, 'a heap) outcome" where
  "swap_sizes a b \<sigma> =
     and_then (size_deque a \<sigma>) (\<lambda>m.
     and_then (size_deque b \<sigma>) (\<lambda>n.
     and_then (set_size a n \<sigma>) (\<lambda>\<sigma>1.
     set_size b m \<sigma>1)))"

definition swap_deque :: "addr \<Rightarrow> addr \<Rightarrow> 'a heap \<Rightarrow> ('a, 'a heap) outcome" where
  "swap_deque this other \<sigma> =
     and_then (empty_deque this \<sigma>) (\<lambda>e.
       if e then move_from_impl this other \<sigma>
       else and_then (empty_deque other \<sigma>) (\<lambda>oe.
         if oe then move_from_impl other this \<sigma>
         else
           and_then (swap_sentinels this other \<sigma>) (\<lambda>\<sigma>1.
           and_then (swap_sizes this other \<sigma>1) (\<lambda>\<sigma>2.
           and_then (get_next this \<sigma>2) (\<lambda>n.
           and_then (set_prev n this \<sigma>2) (\<lambda>\<sigma>3.
           and_then (get_prev this \<sigma>3) (\<lambda>p.
           and_then (set_next p this \<sigma>3) (\<lambda>\<sigma>4.
           and_then (get_next other \<sigma>4) (\<lambda>on.
           and_then (set_prev on other \<sigma>4) (\<lambda>\<sigma>5.
           and_then (get_prev other \<sigma>5) (\<lambda>op.
           set_next op other \<sigma>5)))))))))))"

text \<open>
  Iterators hold \<open>current_\<close>, a \<open>node_base_*\<close>: \<open>begin()\<close> is \<open>sentinel_.next\<close>,
  \<open>end()\<close> is \<open>&sentinel_\<close>, \<open>*it\<close> is \<open>current_->as_node()->data\<close>, \<open>++it\<close> moves to
  \<open>current_->next\<close> and \<open>--it\<close> to \<open>current_->prev\<close>.
\<close>

definition begin_deque :: "addr \<Rightarrow> 'a heap \<Rightarrow> ('a, addr) outcome" where
  "begin_deque this \<sigma> = get_next this \<sigma>"

definition end_deque :: "addr \<Rightarrow> addr" where
  "end_deque this = this"

definition iterator_deref :: "addr \<Rightarrow> 'a heap \<Rightarrow> ('a, 'a) outcome" where
  "iterator_deref current \<sigma> = and_then (as_node current \<sigma>) (\<lambda>n. get_data n \<sigma>)"

definition iterator_incr :: "addr \<Rightarrow> 'a heap \<Rightarrow> ('a, addr) outcome" where
  "iterator_incr current \<sigma> = get_next current \<sigma>"

definition iterator_decr :: "addr \<Rightarrow> 'a heap \<Rightarrow> ('a, addr) outcome" where
  "iterator_decr current \<sigma> = get_prev current \<sigma>"

text \<open>
  A full forward traversal, \<open>for (auto it = d.begin(); it != d.end(); ++it)\<close>, reading
  \<open>*it\<close> at each position. It returns the elements read, in the order read; on a heap
  whose links never lead to \<open>end()\<close> it has undefined behaviour or does not return
  (\<open>None\<close>).
\<close>

partial_function (option) traverse_loop ::
  "'a heap \<Rightarrow> addr \<Rightarrow> addr \<Rightarrow> 'a list \<Rightarrow> (('a, 'a list) outcome) option" where
  "traverse_loop \<sigma> it stop acc =
     (if it = stop then Some (Inr (rev acc))
      else case and_then (iterator_deref it \<sigma>) (\<lambda>v.
                and_then (iterator_incr it \<sigma>) (\<lambda>it'. Inr (v, it'))) of
             Inl e \<Rightarrow> Some (Inl e)
           | Inr (v, it') \<Rightarrow> traverse_loop \<sigma> it' stop (v # acc))"

definition traverse :: "addr \<Rightarrow> 'a heap \<Rightarrow> (('a, 'a list) outcome) option" where
  "traverse this \<sigma> =
     (case begin_deque this \<sigma> of Inl e \<Rightarrow> Some (Inl e)
      | Inr it \<Rightarrow> traverse_loop \<sigma> it (end_deque this) [])"

text \<open>\<open>for (const auto& elt : other) push_back(elt);\<close>\<close>

partial_function (option) copy_loop ::
  "('a heap \<Rightarrow> addr option) \<Rightarrow> ('a \<Rightarrow> 'a option) \<Rightarrow> addr \<Rightarrow> addr \<Rightarrow> addr \<Rightarrow> 'a heap
     \<Rightarrow> (('a, 'a heap) outcome) option" where
  "copy_loop alloc ctor this it stop \<sigma> =
     (if it = stop then Some (Inr \<sigma>)
      else case and_then (iterator_deref it \<sigma>) (\<lambda>elt.
                and_then (push_back alloc ctor this elt \<sigma>) (\<lambda>\<sigma>'.
                and_then (iterator_incr it \<sigma>') (\<lambda>it'. Inr (it', \<sigma>')))) of
             Inl e \<Rightarrow> Some (Inl e)
           | Inr (it', \<sigma>') \<Rightarrow> copy_loop alloc ctor this it' stop \<sigma>')"

definition copy_from ::
  "('a heap \<Rightarrow> addr option) \<Rightarrow> ('a \<Rightarrow> 'a option) \<Rightarrow> addr \<Rightarrow> addr \<Rightarrow> 'a heap
     \<Rightarrow> (('a, 'a heap) outcome) option" where
  "copy_from alloc ctor this other \<sigma> =
     (case begin_deque other \<sigma> of Inl e \<Rightarrow> Some (Inl e)
      | Inr it \<Rightarrow> copy_loop alloc ctor this it (end_deque other) \<sigma>)"

text \<open>
  \<open>~Deque()\<close>: \<open>clear()\<close>; then the object's lifetime has ended, and its sentinel and
  \<open>size_\<close> are live no more.
\<close>

definition destroy_Deque :: "addr \<Rightarrow> 'a heap \<Rightarrow> ('a, 'a heap) outcome" where
  "destroy_Deque this \<sigma> =
     and_then (clear this \<sigma>) (\<lambda>\<sigma>1.
       Inr (\<sigma>1\<lparr>cells := (cells \<sigma>1)(this := None), sizes := (sizes \<sigma>1)(this := None)\<rparr>))"

text \<open>
  The initializer-list and copy constructors delegate to \<open>Deque()\<close>. When the body of
  such a constructor throws after the delegation has completed, the destructor of the
  object runs before the exception reaches the caller.
\<close>

definition unwind_constructor :: "addr \<Rightarrow> ('a, 'r) outcome \<Rightarrow> ('a, 'r) outcome" where
  "unwind_constructor this r =
     (case r of
        Inr x \<Rightarrow> Inr x
      | Inl undefined_behavior \<Rightarrow> Inl undefined_behavior
      | Inl (throws e \<tau>) \<Rightarrow>
          (case destroy_Deque this \<tau> of Inl f \<Rightarrow> Inl f | Inr \<tau>' \<Rightarrow> Inl (throws e \<tau>')))"

text \<open>\<open>Deque(std::initializer_list<T> args) : Deque()\<close>: \<open>push_back\<close> of each, in order.\<close>

fun push_back_all ::
  "('a heap \<Rightarrow> addr option) \<Rightarrow> ('a \<Rightarrow> 'a option) \<Rightarrow> addr \<Rightarrow> 'a list \<Rightarrow> 'a heap \<Rightarrow> ('a, 'a heap) outcome" where
  "push_back_all alloc ctor this [] \<sigma> = Inr \<sigma>"
| "push_back_all alloc ctor this (arg # args) \<sigma> =
     and_then (push_back alloc ctor this arg \<sigma>) (push_back_all alloc ctor this args)"

definition Deque_init ::
  "('a heap \<Rightarrow> addr option) \<Rightarrow> ('a \<Rightarrow> 'a option) \<Rightarrow> addr \<Rightarrow> 'a list \<Rightarrow> 'a heap \<Rightarrow> ('a, 'a heap) outcome" where
  "Deque_init alloc ctor this args \<sigma> =
     and_then (Deque this \<sigma>) (\<lambda>\<sigma>0.
       unwind_constructor this (push_back_all alloc ctor this args \<sigma>0))"


text \<open>Copy constructor and copy assignment.\<close>

definition Deque_copy ::
  "('a heap \<Rightarrow> addr option) \<Rightarrow> ('a \<Rightarrow> 'a option) \<Rightarrow> addr \<Rightarrow> addr \<Rightarrow> 'a heap
     \<Rightarrow> (('a, 'a heap) outcome) option" where
  "Deque_copy alloc ctor this other \<sigma> =
     (case Deque this \<sigma> of Inl e \<Rightarrow> Some (Inl e)
      | Inr \<sigma>1 \<Rightarrow>
          map_option (unwind_constructor this) (copy_from alloc ctor this other \<sigma>1))"


text \<open>
  Move constructor and move assignment. Their bodies call \<open>move_from_(other)\<close> with
  the named reference \<open>other\<close>; the call is taken as \<open>move_from_(std::move(other))\<close>,
  the form \<open>swap\<close> uses.
\<close>

definition Deque_move :: "addr \<Rightarrow> addr \<Rightarrow> 'a heap \<Rightarrow> ('a, 'a heap) outcome" where
  "Deque_move this other \<sigma> = move_from_impl this other (new_object this \<sigma>)"

definition move_assign :: "addr \<Rightarrow> addr \<Rightarrow> 'a heap \<Rightarrow> ('a, 'a heap) outcome" where
  "move_assign this other \<sigma> = and_then (clear this \<sigma>) (move_from_impl this other)"

text \<open>
  The representation invariant: the deque at \<open>d\<close> holds the values \<open>vs\<close> in the nodes at
  the distinct addresses \<open>ps\<close>, in this order. The sentinel's \<open>next\<close> is the first node
  (or the sentinel) and its \<open>prev\<close> the last; each node's \<open>prev\<close> and \<open>next\<close> are its
  neighbours in \<open>d # ps\<close> and \<open>ps @ [d]\<close>; \<open>size_\<close> is the number of nodes.
\<close>

definition ring :: "'a heap \<Rightarrow> addr \<Rightarrow> addr list \<Rightarrow> 'a list \<Rightarrow> bool" where
  "ring \<sigma> d ps vs \<longleftrightarrow>
     distinct ps \<and> d \<notin> set ps \<and> length vs = length ps \<and>
     sizes \<sigma> d = Some (of_nat (length ps)) \<and>
     cells \<sigma> d = Some \<lparr>prev = last (d # ps), next = hd (ps @ [d]), data = None\<rparr> \<and>
     (\<forall>i < length ps. cells \<sigma> (ps ! i) =
        Some \<lparr>prev = (d # ps) ! i, next = (ps @ [d]) ! Suc i, data = Some (vs ! i)\<rparr>)"


section \<open>Concrete heaps\<close>

text \<open>
  An allocator that hands out the first free address among 1, 2 and 3 and then fails, and
  a heap without objects.
\<close>

definition first_free :: "'a heap \<Rightarrow> addr option" where
  "first_free \<sigma> =
     (if cells \<sigma> 1 = None then Some 1
      else if cells \<sigma> 2 = None then Some 2
      else if cells \<sigma> 3 = None then Some 3
      else None)"

definition no_objects :: "'a heap" where
  "no_objects = \<lparr>cells = Map.empty, sizes = Map.empty\<rparr>"

text \<open>The deques \<open>{1}\<close>, \<open>{2}\<close> and \<open>{}\<close> at address 16.\<close>

definition heap_1 :: "nat heap" where
  "heap_1 = \<lparr>cells = [16 \<mapsto> \<lparr>prev = 1, next = 1, data = None\<rparr>,
                       1 \<mapsto> \<lparr>prev = 16, next = 16, data = Some 1\<rparr>],
             sizes = [16 \<mapsto> 1]\<rparr>"

definition heap_2 :: "nat heap" where
  "heap_2 = \<lparr>cells = [16 \<mapsto> \<lparr>prev = 2, next = 2, data = None\<rparr>,
                       2 \<mapsto> \<lparr>prev = 16, next = 16, data = Some 2\<rparr>],
             sizes = [16 \<mapsto> 1]\<rparr>"

definition heap_empty_deque :: "nat heap" where
  "heap_empty_deque = \<lparr>cells = [16 \<mapsto> \<lparr>prev = 16, next = 16, data = None\<rparr>], sizes = [16 \<mapsto> 0]\<rparr>"


definition heap_after_clear :: "nat heap" where
  "heap_after_clear = \<lparr>cells = [16 \<mapsto> \<lparr>prev = 32, next = 16, data = None\<rparr>,
                                 32 \<mapsto> \<lparr>prev = 1, next = 16, data = None\<rparr>],
                       sizes = [16 \<mapsto> 0, 32 \<mapsto> 0]\<rparr>"

lemmas deque_defs = and_then_def get_prev_def get_next_def set_prev_def set_next_def as_node_def
  get_data_def delete_node_def size_deque_def set_size_def empty_deque_def head_impl_def
  set_empty_impl_def new_object_def Deque_def new_node_impl_def incr_size_def decr_size_def
  push_front_impl_def push_front_def push_back_impl_def push_back_def pop_front_def
  begin_deque_def end_deque_def iterator_deref_def iterator_incr_def traverse_def
  Deque_init_def unwind_constructor_def first_free_def no_objects_def

text \<open>
  A store with the environment \<open>y = 20, x = 10\<close> (head at address 2) and an allocator
  that hands out address 3 once.
\<close>

definition store_xy :: "(string, nat) store" where
  "store_xy = [1 \<mapsto> \<lparr>key = ''x'', value = 10, next = nullptr\<rparr>,
               2 \<mapsto> \<lparr>key = ''y'', value = 20, next = 1\<rparr>]"

definition third_node :: "('k, 'v) store \<Rightarrow> addr option" where
  "third_node h = (if h 3 = None then Some 3 else None)"

section \<open>Environments: lookup, update and extend\<close>

lemma lookup_loop_rep:
  "env_rep h a bs \<Longrightarrow> lookup_loop h a k =
     Some (case nearest k bs of None \<Rightarrow> Inl (throws (binding_not_found k) ()) | Some (x, v) \<Rightarrow> Inr v)"
proof (induction bs arbitrary: a)
  case Nil
  then show ?case by (subst lookup_loop.simps) simp
next
  case (Cons b bs)
  obtain x k' v where b: "b = (x, k', v)" by (cases b)
  from Cons.prems b obtain n where n: "a = x" "a \<noteq> nullptr" "h a = Some n" "key n = k'" "value n = v"
    "env_rep h (node.next n) bs"
    by (auto split: option.splits)
  show ?case
  proof (cases "k' = k")
    case True
    with n b show ?thesis by (subst lookup_loop.simps) simp
  next
    case False
    with n b Cons.IH [OF n(6)] show ?thesis by (subst lookup_loop.simps) simp
  qed
qed

lemma env_rep_unique: "env_rep h a bs \<Longrightarrow> env_rep h a bs' \<Longrightarrow> bs = bs'"
proof (induction bs arbitrary: a bs')
  case Nil
  then show ?case by (cases bs') auto
next
  case (Cons b bs)
  obtain x k v where b: "b = (x, k, v)" by (cases b)
  from Cons.prems(1) b have a: "a \<noteq> nullptr" by auto
  with Cons.prems(2) obtain b' bs'' where bs': "bs' = b' # bs''" by (cases bs') auto
  obtain x' k' v' where b': "b' = (x', k', v')" by (cases b')
  from Cons.prems b b' bs' obtain n where "h a = Some n" "b = b'" "env_rep h (node.next n) bs"
    "env_rep h (node.next n) bs''"
    by (auto split: option.splits)
  with Cons.IH bs' show ?case by blast
qed

lemma env_rep_suffix:
  "env_rep h a (bs1 @ (x, k, v) # bs2) \<Longrightarrow> env_rep h x ((x, k, v) # bs2)"
proof (induction bs1 arbitrary: a)
  case Nil
  then show ?case by auto
next
  case (Cons b bs1)
  obtain y k' v' where b: "b = (y, k', v')" by (cases b)
  with Cons.prems obtain n where "h a = Some n" "env_rep h (node.next n) (bs1 @ (x, k, v) # bs2)"
    by (auto split: option.splits)
  then show ?case using Cons.IH by blast
qed

lemma env_rep_distinct: "env_rep h a bs \<Longrightarrow> distinct (map fst bs)"
proof (induction bs arbitrary: a)
  case Nil
  then show ?case by simp
next
  case (Cons b bs)
  obtain x k v where b: "b = (x, k, v)" by (cases b)
  from Cons.prems b obtain n where n: "a = x" "h a = Some n" "env_rep h (node.next n) bs"
    by (auto split: option.splits)
  have "x \<notin> fst ` set bs"
  proof
    assume "x \<in> fst ` set bs"
    then obtain k' v' where "(x, k', v') \<in> set bs" by auto
    then obtain bs1 bs2 where split: "bs = bs1 @ (x, k', v') # bs2" by (auto simp: in_set_conv_decomp)
    with n(3) have "env_rep h x ((x, k', v') # bs2)" using env_rep_suffix by fast
    moreover from Cons.prems b n(1) have "env_rep h x ((x, k, v) # bs)" by simp
    ultimately have "(x, k', v') # bs2 = (x, k, v) # bs" by (rule env_rep_unique)
    with split show False by simp
  qed
  with Cons.IH [OF n(3)] b show ?case by simp
qed

lemma env_rep_frame:
  "env_rep h a bs \<Longrightarrow> (\<And>x. x \<in> fst ` set bs \<Longrightarrow> h' x = h x) \<Longrightarrow> env_rep h' a bs"
proof (induction bs arbitrary: a)
  case Nil
  then show ?case by simp
next
  case (Cons b bs)
  obtain x k v where b: "b = (x, k, v)" by (cases b)
  from Cons.prems(1) b obtain n where n: "a = x" "a \<noteq> nullptr" "h a = Some n" "key n = k" "value n = v"
    "env_rep h (node.next n) bs"
    by (auto split: option.splits)
  have "h' a = h a" using Cons.prems(2) [of x] b n(1) by simp
  moreover have "env_rep h' (node.next n) bs"
    using Cons.IH [OF n(6)] Cons.prems(2) by simp
  ultimately show ?case using n b by simp
qed

lemma nearest_None: "nearest k bs = None \<longleftrightarrow> k \<notin> set (map (fst \<circ> snd) bs)"
  by (induction bs rule: nearest.induct) auto

lemma nearest_Some_mem: "nearest k bs = Some (x, v) \<Longrightarrow> (x, k, v) \<in> set bs"
  by (induction bs rule: nearest.induct) (auto split: if_splits)

lemma update_loop_rep:
  assumes "env_rep h a bs"
  shows "case nearest k bs of
      None \<Rightarrow> update_loop h a k w = Some (Inl (throws (binding_not_found k) h))
    | Some (x, v) \<Rightarrow> \<exists>n. h x = Some n \<and>
        update_loop h a k w = Some (Inr (h(x \<mapsto> n\<lparr>value := w\<rparr>))) \<and>
        env_rep (h(x \<mapsto> n\<lparr>value := w\<rparr>)) a (overwrite k w bs)"
  using assms
proof (induction bs arbitrary: a)
  case Nil
  then show ?case by (subst update_loop.simps) simp
next
  case (Cons b bs)
  obtain x k' v where b: "b = (x, k', v)" by (cases b)
  from Cons.prems b obtain n where n: "a = x" "a \<noteq> nullptr" "h a = Some n" "key n = k'" "value n = v"
    "env_rep h (node.next n) bs"
    by (auto split: option.splits)
  from env_rep_distinct [OF Cons.prems] b have xn: "x \<notin> fst ` set bs" by simp
  show ?case
  proof (cases "k' = k")
    case True
    have "env_rep (h(x \<mapsto> n\<lparr>value := w\<rparr>)) (node.next n) bs"
      by (rule env_rep_frame [OF n(6)]) (use xn in auto)
    moreover have "update_loop h a k w = Some (Inr (h(x \<mapsto> n\<lparr>value := w\<rparr>)))"
      using n True by (subst update_loop.simps) simp
    ultimately show ?thesis using n b True by simp
  next
    case False
    have step: "update_loop h a k w = update_loop h (node.next n) k w"
      using n False by (subst update_loop.simps) simp
    show ?thesis
    proof (cases "nearest k bs")
      case None
      with Cons.IH [OF n(6)] step b False show ?thesis by simp
    next
      case (Some r)
      obtain y u where r: "r = (y, u)" by (cases r)
      from Cons.IH [OF n(6)] Some r obtain m where m: "h y = Some m"
        "update_loop h (node.next n) k w = Some (Inr (h(y \<mapsto> m\<lparr>value := w\<rparr>)))"
        "env_rep (h(y \<mapsto> m\<lparr>value := w\<rparr>)) (node.next n) (overwrite k w bs)"
        by auto
      from nearest_Some_mem Some r have "(y, k, u) \<in> set bs" by fast
      then have "y \<in> fst ` set bs" by force
      with xn have "y \<noteq> x" by auto
      with m n b False Some r step show ?thesis by simp
    qed
  qed
qed


lemma env_rep_allocated: "env_rep h a bs \<Longrightarrow> x \<in> fst ` set bs \<Longrightarrow> h x \<noteq> None"
proof (induction bs arbitrary: a)
  case Nil
  then show ?case by simp
next
  case (Cons b bs)
  obtain y k v where b: "b = (y, k, v)" by (cases b)
  from Cons.prems(1) b obtain n where n: "a = y" "h a = Some n" "env_rep h (node.next n) bs"
    by (auto split: option.splits)
  show ?case
  proof (cases "x = y")
    case True
    with n show ?thesis by simp
  next
    case False
    with Cons.prems(2) b have "x \<in> fst ` set bs" by auto
    with Cons.IH [OF n(3)] show ?thesis by simp
  qed
qed

lemma nearest_overwrite:
  "nearest k bs = Some (x, v) \<Longrightarrow> nearest k (overwrite k w bs) = Some (x, w)"
  by (induction bs rule: nearest.induct) (auto split: if_splits)

lemma nearest_overwrite_other:
  "k' \<noteq> k \<Longrightarrow> nearest k' (overwrite k w bs) = nearest k' bs"
  by (induction bs rule: nearest.induct) auto

lemma extend_rep:
  assumes r: "env_rep h e bs" and a: "alloc h = Some p" and f: "h p = None" "p \<noteq> nullptr"
  shows "extend_env alloc e k w h = Inr (p, h(p \<mapsto> \<lparr>key = k, value = w, next = e\<rparr>))"
    and "env_rep (h(p \<mapsto> \<lparr>key = k, value = w, next = e\<rparr>)) e bs"
    and "env_rep (h(p \<mapsto> \<lparr>key = k, value = w, next = e\<rparr>)) p ((p, k, w) # bs)"
proof -
  show "extend_env alloc e k w h = Inr (p, h(p \<mapsto> \<lparr>key = k, value = w, next = e\<rparr>))"
    using a by (simp add: extend_env_def)
  have "p \<notin> fst ` set bs" using env_rep_allocated [OF r] f(1) by blast
  then show r': "env_rep (h(p \<mapsto> \<lparr>key = k, value = w, next = e\<rparr>)) e bs"
    by (intro env_rep_frame [OF r]) auto
  then show "env_rep (h(p \<mapsto> \<lparr>key = k, value = w, next = e\<rparr>)) p ((p, k, w) # bs)"
    using f(2) by simp
qed

text \<open>
  C8. For an environment \<open>e\<close> whose nodes are \<open>bs\<close> (newest first) and a key \<open>k\<close>:
  \<open>lookup\<close> returns the value of the nearest binding of \<open>k\<close> and throws
  \<open>binding_not_found\<close> exactly when \<open>k\<close> has no binding; \<open>update\<close> stores the new
  value in the node of the nearest binding and changes nothing else, and when \<open>k\<close> has no
  binding it throws \<open>binding_not_found\<close> with the store as it was; \<open>extend\<close> with a
  fresh node leaves the nodes of \<open>e\<close> as they were and returns an environment whose
  first node is the new binding and whose remaining nodes are the nodes of \<open>e\<close>
  themselves.
\<close>

theorem environment_lookup_update_extend:
  assumes "env_rep h e bs"
  shows "lookup e k h =
        Some (case nearest k bs of None \<Rightarrow> Inl (throws (binding_not_found k) ())
              | Some (x, v) \<Rightarrow> Inr v)
    \<and> (nearest k bs = None \<longleftrightarrow> k \<notin> set (map (fst \<circ> snd) bs))
    \<and> (case nearest k bs of
          None \<Rightarrow> update e k w h = Some (Inl (throws (binding_not_found k) h))
        | Some (x, v) \<Rightarrow> \<exists>n. h x = Some n
            \<and> update e k w h = Some (Inr (h(x \<mapsto> n\<lparr>value := w\<rparr>)))
            \<and> env_rep (h(x \<mapsto> n\<lparr>value := w\<rparr>)) e (overwrite k w bs))
    \<and> (\<forall>p. alloc h = Some p \<and> h p = None \<and> p \<noteq> nullptr \<longrightarrow>
          extend_env alloc e k w h = Inr (p, h(p \<mapsto> \<lparr>key = k, value = w, next = e\<rparr>))
          \<and> env_rep (h(p \<mapsto> \<lparr>key = k, value = w, next = e\<rparr>)) e bs
          \<and> env_rep (h(p \<mapsto> \<lparr>key = k, value = w, next = e\<rparr>)) p ((p, k, w) # bs))"
proof (intro conjI allI impI)
  show "lookup e k h = Some (case nearest k bs of None \<Rightarrow> Inl (throws (binding_not_found k) ())
              | Some (x, v) \<Rightarrow> Inr v)"
    unfolding lookup_def using assms by (rule lookup_loop_rep)
  show "nearest k bs = None \<longleftrightarrow> k \<notin> set (map (fst \<circ> snd) bs)" by (rule nearest_None)
  show "case nearest k bs of
          None \<Rightarrow> update e k w h = Some (Inl (throws (binding_not_found k) h))
        | Some (x, v) \<Rightarrow> \<exists>n. h x = Some n
            \<and> update e k w h = Some (Inr (h(x \<mapsto> n\<lparr>value := w\<rparr>)))
            \<and> env_rep (h(x \<mapsto> n\<lparr>value := w\<rparr>)) e (overwrite k w bs)"
    unfolding update_def using assms by (rule update_loop_rep)
next
  fix p assume p: "alloc h = Some p \<and> h p = None \<and> p \<noteq> nullptr"
  then show "extend_env alloc e k w h = Inr (p, h(p \<mapsto> \<lparr>key = k, value = w, next = e\<rparr>))"
    "env_rep (h(p \<mapsto> \<lparr>key = k, value = w, next = e\<rparr>)) e bs"
    "env_rep (h(p \<mapsto> \<lparr>key = k, value = w, next = e\<rparr>)) p ((p, k, w) # bs)"
    using extend_rep [OF assms, of alloc p k w] by simp_all
qed

text \<open>
  C10. Let \<open>e2 = e1.extend(k2, v2)\<close> and let \<open>k\<close> differ from \<open>k2\<close> and be bound in
  \<open>e1\<close>. \<open>extend\<close> changes no result of \<open>e1.lookup\<close>, and after \<open>e2.update(k, w)\<close>
  \<open>e1.lookup(k)\<close> returns \<open>w\<close>: the update writes the node both environments share.
\<close>

theorem update_seen_through_shared_tail:
  assumes r: "env_rep h e1 bs" and al: "fresh_node_alloc alloc"
    and ex: "extend_env alloc e1 k2 v2 h = Inr (e2, h1)"
    and k: "k \<noteq> k2" "k \<in> set (map (fst \<circ> snd) bs)"
  shows "(\<forall>k'. lookup e1 k' h1 = lookup e1 k' h)
    \<and> (\<exists>h2. update e2 k w h1 = Some (Inr h2)
          \<and> lookup e1 k h2 = Some (Inr w) \<and> lookup e2 k h2 = Some (Inr w))"
proof -
  from ex obtain p where a: "alloc h = Some p"
    by (auto simp: extend_env_def split: option.splits)
  with al have f: "h p = None" "p \<noteq> nullptr" by (auto simp: fresh_node_alloc_def)
  from extend_rep [where alloc = alloc and h = h and p = p and k = k2 and w = v2, OF r a f] ex
  have e2: "e2 = p" and h1: "h1 = h(p \<mapsto> \<lparr>key = k2, value = v2, next = e1\<rparr>)"
    and r1: "env_rep h1 e1 bs" and r2: "env_rep h1 e2 ((e2, k2, v2) # bs)"
    by simp_all
  have same: "\<forall>k'. lookup e1 k' h1 = lookup e1 k' h"
    by (simp add: lookup_def lookup_loop_rep [OF r] lookup_loop_rep [OF r1])
  from k(2) obtain x v where nr: "nearest k bs = Some (x, v)"
    using nearest_None [of k bs] by (cases "nearest k bs") auto
  with k(1) have nr2: "nearest k ((e2, k2, v2) # bs) = Some (x, v)" by simp
  from update_loop_rep [OF r2, of k w] nr2 obtain n where n: "h1 x = Some n"
    "update_loop h1 e2 k w = Some (Inr (h1(x \<mapsto> n\<lparr>value := w\<rparr>)))"
    "env_rep (h1(x \<mapsto> n\<lparr>value := w\<rparr>)) e2 (overwrite k w ((e2, k2, v2) # bs))"
    by auto
  from update_loop_rep [OF r1, of k w] nr n(1)
  have r1': "env_rep (h1(x \<mapsto> n\<lparr>value := w\<rparr>)) e1 (overwrite k w bs)" by auto
  have "lookup e1 k (h1(x \<mapsto> n\<lparr>value := w\<rparr>)) = Some (Inr w)"
    by (simp add: lookup_def lookup_loop_rep [OF r1'] nearest_overwrite [OF nr])
  moreover have "lookup e2 k (h1(x \<mapsto> n\<lparr>value := w\<rparr>)) = Some (Inr w)"
    using k(1) by (simp add: lookup_def lookup_loop_rep [OF n(3)] nearest_overwrite [OF nr])
  ultimately show ?thesis using same n(2) by (simp add: update_def)
qed

lemma store_xy_rep: "env_rep store_xy 2 [(2, ''y'', 20), (1, ''x'', 10)]"
  by (simp add: store_xy_def nullptr_def)

lemma third_node_fresh: "fresh_node_alloc third_node"
  by (auto simp: fresh_node_alloc_def third_node_def nullptr_def split: if_splits)

theorem environment_lookup_update_extend_witness:
  "env_rep store_xy 2 [(2, ''y'', 20), (1, ''x'', 10)]
   \<and> lookup 2 ''x'' store_xy = Some (Inr 10)
   \<and> lookup 2 ''z'' store_xy = Some (Inl (throws (binding_not_found ''z'') ()))
   \<and> update 2 ''x'' 11 store_xy = Some (Inr (store_xy(1 \<mapsto> \<lparr>key = ''x'', value = 11, next = nullptr\<rparr>)))
   \<and> update 2 ''z'' 11 store_xy = Some (Inl (throws (binding_not_found ''z'') store_xy))
   \<and> extend_env third_node 2 ''x'' 12 store_xy
       = Inr (3, store_xy(3 \<mapsto> \<lparr>key = ''x'', value = 12, next = 2\<rparr>))
   \<and> env_rep (store_xy(3 \<mapsto> \<lparr>key = ''x'', value = 12, next = 2\<rparr>)) 3
        [(3, ''x'', 12), (2, ''y'', 20), (1, ''x'', 10)]"
proof -
  note r = store_xy_rep
  have a: "third_node store_xy = Some 3 \<and> store_xy 3 = None \<and> (3 :: addr) \<noteq> nullptr"
    by (simp add: third_node_def store_xy_def nullptr_def)
  have n: "store_xy 1 = Some \<lparr>key = ''x'', value = 10, next = nullptr\<rparr>"
    by (simp add: store_xy_def)
  show ?thesis
    using r a n
      environment_lookup_update_extend [OF r, of "''x''" 11 third_node]
      environment_lookup_update_extend [OF r, of "''z''" 11 third_node]
      environment_lookup_update_extend [OF r, of "''x''" 12 third_node]
    by simp
qed

theorem update_seen_through_shared_tail_witness:
  "env_rep store_xy 2 [(2, ''y'', 20), (1, ''x'', 10)] \<and> fresh_node_alloc third_node
   \<and> (\<exists>h1 h2. extend_env third_node 2 ''z'' 30 store_xy = Inr (3, h1)
        \<and> lookup 2 ''x'' h1 = lookup 2 ''x'' store_xy
        \<and> update 3 ''x'' 11 h1 = Some (Inr h2)
        \<and> lookup 2 ''x'' h2 = Some (Inr 11))"
proof -
  note r = store_xy_rep
  have e: "extend_env third_node 2 ''z'' 30 store_xy
      = Inr (3, store_xy(3 \<mapsto> \<lparr>key = ''z'', value = 30, next = 2\<rparr>))"
    by (simp add: extend_env_def third_node_def store_xy_def)
  have k: "''x'' \<noteq> ''z''" "''x'' \<in> set (map (fst \<circ> snd) [(2 :: addr, ''y'', 20 :: nat), (1, ''x'', 10)])"
    by simp_all
  from update_seen_through_shared_tail [OF r third_node_fresh e k, of 11]
  show ?thesis using r third_node_fresh e by auto
qed

section \<open>The ring of a deque\<close>



lemma ring_Nil:
  "ring \<sigma> d [] vs \<longleftrightarrow> vs = [] \<and> sizes \<sigma> d = Some 0 \<and> cells \<sigma> d = Some \<lparr>prev = d, next = d, data = None\<rparr>"
  by (auto simp: ring_def)

lemma ring_last_cell:
  assumes "ring \<sigma> d ps vs" "ps \<noteq> []"
  shows "cells \<sigma> (last ps) = Some \<lparr>prev = last (d # butlast ps), next = d, data = Some (last vs)\<rparr>"
proof -
  from assms have len: "length vs = length ps" and n: "length ps - 1 < length ps"
    by (auto simp: ring_def)
  from assms have "cells \<sigma> (ps ! (length ps - 1)) =
      Some \<lparr>prev = (d # ps) ! (length ps - 1), next = (ps @ [d]) ! Suc (length ps - 1),
        data = Some (vs ! (length ps - 1))\<rparr>"
    unfolding ring_def using n by blast
  moreover have "ps ! (length ps - 1) = last ps" using assms(2) by (simp add: last_conv_nth)
  moreover have "vs ! (length ps - 1) = last vs" using assms(2) len
    by (metis last_conv_nth length_0_conv)
  moreover have "(ps @ [d]) ! Suc (length ps - 1) = d" using assms(2) by (simp add: nth_append)
  moreover have "(d # ps) ! (length ps - 1) = last (d # butlast ps)"
    using assms(2) by (cases ps rule: rev_cases) (auto simp: nth_Cons' nth_append last_conv_nth)
  ultimately show ?thesis by simp
qed



lemma ring_nth_cell:
  "ring \<sigma> d ps vs \<Longrightarrow> i < length ps \<Longrightarrow> cells \<sigma> (ps ! i) =
     Some \<lparr>prev = (d # ps) ! i, next = (ps @ [d]) ! Suc i, data = Some (vs ! i)\<rparr>"
  by (simp add: ring_def)

lemma ring_sentinel:
  "ring \<sigma> d ps vs \<Longrightarrow> cells \<sigma> d = Some \<lparr>prev = last (d # ps), next = hd (ps @ [d]), data = None\<rparr>"
  by (simp add: ring_def)







lemma ring_length_bound:
  assumes "ring \<sigma> d ps vs"
  shows "length ps < 2 ^ 64"
proof -
  from assms have "distinct (d # ps)" by (simp add: ring_def)
  then have "length (d # ps) = card (set (d # ps))" by (metis distinct_card)
  also have "\<dots> \<le> card (UNIV :: addr set)" by (rule card_mono) simp_all
  also have "\<dots> = 2 ^ 64" by (simp add: card_word)
  finally show ?thesis by simp
qed

lemma ring_size:
  assumes "ring \<sigma> d ps vs"
  shows "\<exists>n. size_deque d \<sigma> = Inr n \<and> unat n = length ps"
proof -
  from assms have "sizes \<sigma> d = Some (of_nat (length ps))" by (simp add: ring_def)
  moreover have "unat (of_nat (length ps) :: 64 word) = length ps"
    using ring_length_bound [OF assms] by (simp add: unat_of_nat)
  ultimately show ?thesis by (simp add: size_deque_def)
qed

lemma ring_empty: 
  assumes "ring \<sigma> d ps vs"
  shows "empty_deque d \<sigma> = Inr (ps = [])"
proof -
  from ring_size [OF assms] obtain n where n: "size_deque d \<sigma> = Inr n" "unat n = length ps" by blast
  have "n = 0 \<longleftrightarrow> ps = []" using n(2) by (metis length_0_conv unat_eq_0)
  with n(1) show ?thesis by (simp add: empty_deque_def and_then_def)
qed








text \<open>
  \<open>swap\<close> of two non-empty deques with disjoint nodes exchanges their rings: every node
  keeps its cell except the first and last of each ring, whose links to the sentinel are
  re-pointed.
\<close>

lemma ring_first_cell:
  assumes "ring \<sigma> d ps vs" "ps \<noteq> []"
  shows "cells \<sigma> (hd ps) = Some \<lparr>prev = d, next = hd (tl ps @ [d]), data = Some (hd vs)\<rparr>"
proof -
  from assms obtain q qs where ps: "ps = q # qs" by (cases ps) auto
  from assms have "length vs = length ps" by (simp add: ring_def)
  with ps obtain w ws where vs: "vs = w # ws" by (cases vs) auto
  from ring_nth_cell [OF assms(1), of 0] ps vs show ?thesis
    by (cases qs) simp_all
qed

lemma swap_deque_result:
  assumes a: "cells \<sigma> a = Some \<lparr>prev = pt, next = ph, data = None\<rparr>"
    and b: "cells \<sigma> b = Some \<lparr>prev = qt, next = qh, data = None\<rparr>"
    and sz: "sizes \<sigma> a = Some m" "sizes \<sigma> b = Some n" "m \<noteq> 0" "n \<noteq> 0"
    and ne: "a \<noteq> b" "ph \<noteq> a" "ph \<noteq> b" "pt \<noteq> a" "pt \<noteq> b" "qh \<noteq> a" "qh \<noteq> b" "qt \<noteq> a" "qt \<noteq> b"
      "ph \<noteq> qh" "ph \<noteq> qt" "pt \<noteq> qh" "pt \<noteq> qt"
    and c: "cells \<sigma> ph = Some cph" "cells \<sigma> pt = Some cpt" "cells \<sigma> qh = Some cqh"
      "cells \<sigma> qt = Some cqt"
  shows "\<exists>\<sigma>'. swap_deque a b \<sigma> = Inr \<sigma>'
    \<and> sizes \<sigma>' = (sizes \<sigma>)(a \<mapsto> n, b \<mapsto> m)
    \<and> cells \<sigma>' a = Some \<lparr>prev = qt, next = qh, data = None\<rparr>
    \<and> cells \<sigma>' b = Some \<lparr>prev = pt, next = ph, data = None\<rparr>
    \<and> cells \<sigma>' qh = Some (if qh = qt then cqh\<lparr>prev := a, next := a\<rparr> else cqh\<lparr>prev := a\<rparr>)
    \<and> cells \<sigma>' qt = Some (if qh = qt then cqh\<lparr>prev := a, next := a\<rparr> else cqt\<lparr>next := a\<rparr>)
    \<and> cells \<sigma>' ph = Some (if ph = pt then cph\<lparr>prev := b, next := b\<rparr> else cph\<lparr>prev := b\<rparr>)
    \<and> cells \<sigma>' pt = Some (if ph = pt then cph\<lparr>prev := b, next := b\<rparr> else cpt\<lparr>next := b\<rparr>)
    \<and> (\<forall>x. x \<notin> {a, b, ph, pt, qh, qt} \<longrightarrow> cells \<sigma>' x = cells \<sigma> x)"
  using assms
  by (simp add: swap_deque_def swap_sentinels_def swap_sizes_def empty_deque_def size_deque_def
      set_size_def and_then_def get_prev_def get_next_def set_prev_def set_next_def)


lemma ring_relocate:
  assumes r: "ring \<sigma> a ps vs" and ne: "ps \<noteq> []" and b: "b \<notin> set ps"
    and sz: "sizes \<sigma>' b = Some (of_nat (length ps))"
    and s: "cells \<sigma>' b = Some \<lparr>prev = last ps, next = hd ps, data = None\<rparr>"
    and h: "\<And>c. cells \<sigma> (hd ps) = Some c \<Longrightarrow> cells \<sigma>' (hd ps) =
        Some (if hd ps = last ps then c\<lparr>prev := b, next := b\<rparr> else c\<lparr>prev := b\<rparr>)"
    and t: "\<And>c c'. cells \<sigma> (hd ps) = Some c \<Longrightarrow> cells \<sigma> (last ps) = Some c' \<Longrightarrow>
        cells \<sigma>' (last ps) =
        Some (if hd ps = last ps then c\<lparr>prev := b, next := b\<rparr> else c'\<lparr>next := b\<rparr>)"
    and f: "\<And>x. x \<in> set ps \<Longrightarrow> x \<noteq> hd ps \<Longrightarrow> x \<noteq> last ps \<Longrightarrow> cells \<sigma>' x = cells \<sigma> x"
  shows "ring \<sigma>' b ps vs"
  unfolding ring_def
proof (intro conjI allI impI)
  from r have dist: "distinct ps" and len: "length vs = length ps" by (simp_all add: ring_def)
  show "distinct ps" "b \<notin> set ps" "length vs = length ps" using dist b len by simp_all
  show "sizes \<sigma>' b = Some (word_of_nat (length ps))" by (rule sz)
  show "cells \<sigma>' b = Some \<lparr>prev = last (b # ps), next = hd (ps @ [b]), data = None\<rparr>"
    using s ne by simp
  fix i assume i: "i < length ps"
  note ci = ring_nth_cell [OF r i]
  have hd0: "hd ps = ps ! 0" using ne by (simp add: hd_conv_nth)
  have lastn: "last ps = ps ! (length ps - 1)" using ne by (simp add: last_conv_nth)
  have idx: "\<And>j k. j < length ps \<Longrightarrow> k < length ps \<Longrightarrow> ps ! j = ps ! k \<longleftrightarrow> j = k"
    using dist by (simp add: nth_eq_iff_index_eq)
  show "cells \<sigma>' (ps ! i) =
     Some \<lparr>prev = (b # ps) ! i, next = (ps @ [b]) ! Suc i, data = Some (vs ! i)\<rparr>"
  proof (cases "length ps = 1")
    case True
    with i have i0: "i = 0" by simp
    from True have hl: "hd ps = last ps" using hd0 lastn by simp
    from h [OF ci [unfolded i0 hd0 [symmetric]]] hl i0 hd0 True show ?thesis
      by (simp add: nth_append)
  next
    case False
    with ne have n2: "2 \<le> length ps" by (cases ps) (auto simp: Suc_le_eq)
    then have hl: "hd ps \<noteq> last ps" using hd0 lastn idx [of 0 "length ps - 1"] ne by auto
    consider "i = 0" | "i = length ps - 1" | "0 < i" "i < length ps - 1" using i by linarith
    then show ?thesis
    proof cases
      case 1
      from h [OF ci [unfolded 1 hd0 [symmetric]]] hl 1 hd0 n2 show ?thesis
        by (simp add: nth_append)
    next
      case 2
      have c0: "cells \<sigma> (hd ps) = Some \<lparr>prev = (a # ps) ! 0, next = (ps @ [a]) ! Suc 0,
          data = Some (vs ! 0)\<rparr>"
        using ring_nth_cell [OF r, of 0] ne hd0 by simp
      have li: "ps ! i = last ps" using 2 lastn by simp
      have i0: "0 < i" using 2 n2 by simp
      have e1: "(b # ps) ! i = (a # ps) ! i" using i0 by (cases i) simp_all
      have e2: "(ps @ [b]) ! Suc i = b" using 2 n2 by (auto simp: nth_append)
      from t [OF c0 ci [unfolded li]] hl
      have "cells \<sigma>' (last ps) = Some \<lparr>prev = (a # ps) ! i, next = b, data = Some (vs ! i)\<rparr>"
        by simp
      then show ?thesis using e1 e2 li by simp
    next
      case 3
      have "ps ! i \<noteq> hd ps" "ps ! i \<noteq> last ps"
        using 3 i idx [of i 0] idx [of i "length ps - 1"] hd0 lastn ne by auto
      with f [of "ps ! i"] i have "cells \<sigma>' (ps ! i) = cells \<sigma> (ps ! i)" by simp
      moreover have "(b # ps) ! i = (a # ps) ! i" using 3(1) by (cases i) simp_all
      moreover have "(ps @ [b]) ! Suc i = (ps @ [a]) ! Suc i" using 3(2) by (auto simp: nth_append)
      ultimately show ?thesis using ci by simp
    qed
  qed
qed

lemma swap_deque_rings:
  assumes ra: "ring \<sigma> a ps vs" and rb: "ring \<sigma> b qs ws"
    and ne: "ps \<noteq> []" "qs \<noteq> []" and ab: "a \<noteq> b" and dj: "set ps \<inter> set qs = {}"
  shows "\<exists>\<sigma>'. swap_deque a b \<sigma> = Inr \<sigma>' \<and> ring \<sigma>' a qs ws \<and> ring \<sigma>' b ps vs"
proof -
  have aq: "a \<notin> set qs"
  proof
    assume "a \<in> set qs"
    then obtain i where "i < length qs" "qs ! i = a" by (auto simp: in_set_conv_nth)
    with ring_nth_cell [OF rb this(1)] ring_sentinel [OF ra] show False by simp
  qed
  have bp: "b \<notin> set ps"
  proof
    assume "b \<in> set ps"
    then obtain i where "i < length ps" "ps ! i = b" by (auto simp: in_set_conv_nth)
    with ring_nth_cell [OF ra this(1)] ring_sentinel [OF rb] show False by simp
  qed
  from ra rb have ap: "a \<notin> set ps" and bq: "b \<notin> set qs" by (simp_all add: ring_def)
  have mem: "hd ps \<in> set ps" "last ps \<in> set ps" "hd qs \<in> set qs" "last qs \<in> set qs"
    using ne by simp_all
  define m :: "64 word" where "m = of_nat (length ps)"
  define n :: "64 word" where "n = of_nat (length qs)"
  from ra rb have sz: "sizes \<sigma> a = Some m" "sizes \<sigma> b = Some n"
    by (simp_all add: ring_def m_def n_def)
  from ring_empty [OF ra] ring_empty [OF rb] sz ne have nz: "m \<noteq> 0" "n \<noteq> 0"
    by (simp_all add: empty_deque_def size_deque_def and_then_def)
  from ring_sentinel [OF ra] ne(1)
  have sa: "cells \<sigma> a = Some \<lparr>prev = last ps, next = hd ps, data = None\<rparr>" by simp
  from ring_sentinel [OF rb] ne(2)
  have sb: "cells \<sigma> b = Some \<lparr>prev = last qs, next = hd qs, data = None\<rparr>" by simp
  note cph = ring_first_cell [OF ra ne(1)] and cpt = ring_last_cell [OF ra ne(1)]
    and cqh = ring_first_cell [OF rb ne(2)] and cqt = ring_last_cell [OF rb ne(2)]
  have neqs: "hd ps \<noteq> a" "hd ps \<noteq> b" "last ps \<noteq> a" "last ps \<noteq> b"
    "hd qs \<noteq> a" "hd qs \<noteq> b" "last qs \<noteq> a" "last qs \<noteq> b"
    "hd ps \<noteq> hd qs" "hd ps \<noteq> last qs" "last ps \<noteq> hd qs" "last ps \<noteq> last qs"
    using mem ap aq bp bq dj by auto
  from swap_deque_result [OF sa sb sz nz ab neqs(1,2,3,4,5,6,7,8,9,10,11,12)
      cph cpt cqh cqt]
  obtain \<sigma>' where \<sigma>': "swap_deque a b \<sigma> = Inr \<sigma>'"
    "sizes \<sigma>' = (sizes \<sigma>)(a \<mapsto> n, b \<mapsto> m)"
    "cells \<sigma>' a = Some \<lparr>prev = last qs, next = hd qs, data = None\<rparr>"
    "cells \<sigma>' b = Some \<lparr>prev = last ps, next = hd ps, data = None\<rparr>"
    "cells \<sigma>' (hd qs) = Some (if hd qs = last qs
        then \<lparr>prev = b, next = hd (tl qs @ [b]), data = Some (hd ws)\<rparr>\<lparr>prev := a, next := a\<rparr>
        else \<lparr>prev = b, next = hd (tl qs @ [b]), data = Some (hd ws)\<rparr>\<lparr>prev := a\<rparr>)"
    "cells \<sigma>' (last qs) = Some (if hd qs = last qs
        then \<lparr>prev = b, next = hd (tl qs @ [b]), data = Some (hd ws)\<rparr>\<lparr>prev := a, next := a\<rparr>
        else \<lparr>prev = last (b # butlast qs), next = b, data = Some (last ws)\<rparr>\<lparr>next := a\<rparr>)"
    "cells \<sigma>' (hd ps) = Some (if hd ps = last ps
        then \<lparr>prev = a, next = hd (tl ps @ [a]), data = Some (hd vs)\<rparr>\<lparr>prev := b, next := b\<rparr>
        else \<lparr>prev = a, next = hd (tl ps @ [a]), data = Some (hd vs)\<rparr>\<lparr>prev := b\<rparr>)"
    "cells \<sigma>' (last ps) = Some (if hd ps = last ps
        then \<lparr>prev = a, next = hd (tl ps @ [a]), data = Some (hd vs)\<rparr>\<lparr>prev := b, next := b\<rparr>
        else \<lparr>prev = last (a # butlast ps), next = a, data = Some (last vs)\<rparr>\<lparr>next := b\<rparr>)"
    "\<forall>x. x \<notin> {a, b, hd ps, last ps, hd qs, last qs} \<longrightarrow> cells \<sigma>' x = cells \<sigma> x"
    by blast
  have "ring \<sigma>' b ps vs"
  proof (rule ring_relocate [OF ra ne(1) bp])
    show "sizes \<sigma>' b = Some (word_of_nat (length ps))" using \<sigma>'(2) m_def by simp
    show "cells \<sigma>' b = Some \<lparr>prev = last ps, next = hd ps, data = None\<rparr>" by (rule \<sigma>'(4))
    show "\<And>c. cells \<sigma> (hd ps) = Some c \<Longrightarrow> cells \<sigma>' (hd ps) =
        Some (if hd ps = last ps then c\<lparr>prev := b, next := b\<rparr> else c\<lparr>prev := b\<rparr>)"
      using \<sigma>'(7) cph by simp
    show "\<And>c c'. cells \<sigma> (hd ps) = Some c \<Longrightarrow> cells \<sigma> (last ps) = Some c' \<Longrightarrow>
        cells \<sigma>' (last ps) =
        Some (if hd ps = last ps then c\<lparr>prev := b, next := b\<rparr> else c'\<lparr>next := b\<rparr>)"
      using \<sigma>'(8) cph cpt by simp
    show "\<And>x. x \<in> set ps \<Longrightarrow> x \<noteq> hd ps \<Longrightarrow> x \<noteq> last ps \<Longrightarrow> cells \<sigma>' x = cells \<sigma> x"
      using \<sigma>'(9) ap bp dj mem by auto
  qed
  moreover have "ring \<sigma>' a qs ws"
  proof (rule ring_relocate [OF rb ne(2) aq])
    show "sizes \<sigma>' a = Some (word_of_nat (length qs))" using \<sigma>'(2) n_def ab by simp
    show "cells \<sigma>' a = Some \<lparr>prev = last qs, next = hd qs, data = None\<rparr>" by (rule \<sigma>'(3))
    show "\<And>c. cells \<sigma> (hd qs) = Some c \<Longrightarrow> cells \<sigma>' (hd qs) =
        Some (if hd qs = last qs then c\<lparr>prev := a, next := a\<rparr> else c\<lparr>prev := a\<rparr>)"
      using \<sigma>'(5) cqh by simp
    show "\<And>c c'. cells \<sigma> (hd qs) = Some c \<Longrightarrow> cells \<sigma> (last qs) = Some c' \<Longrightarrow>
        cells \<sigma>' (last qs) =
        Some (if hd qs = last qs then c\<lparr>prev := a, next := a\<rparr> else c'\<lparr>next := a\<rparr>)"
      using \<sigma>'(6) cqh cqt by simp
    show "\<And>x. x \<in> set qs \<Longrightarrow> x \<noteq> hd qs \<Longrightarrow> x \<noteq> last qs \<Longrightarrow> cells \<sigma>' x = cells \<sigma> x"
      using \<sigma>'(9) aq bq dj mem by auto
  qed
  ultimately show ?thesis using \<sigma>'(1) by blast
qed


section \<open>Pushing, popping and copying\<close>


lemma heap_empty_deque_ring: "ring heap_empty_deque 16 [] []"
  by (simp add: ring_def heap_empty_deque_def)




text \<open>
  C5 as stated, for every deque, fails in two ways. On a non-empty deque: the deque \<open>{1}\<close>
  at address 16 holds \<open>{2}\<close> after \<open>push_back(2); pop_front()\<close>, not what it held before.
  On an empty deque whose sentinel is not linked to itself: after
  \<open>Deque a{5}; Deque b; b.swap(a); b.clear();\<close> the deque \<open>a\<close> is empty, but
  \<open>a.push_back(7)\<close> links the new node behind \<open>a.sentinel_.prev\<close>, which is \<open>b\<close>'s
  sentinel, so \<open>a.sentinel_.next\<close> stays \<open>a\<close>'s own sentinel and both \<open>a.pop_front()\<close>
  and \<open>a.front()\<close> cast it to a node.
\<close>

theorem fifo_round_trip_counterexample:
  "traverse 16 heap_1 = Some (Inr [1])
   \<and> and_then (push_back first_free Some 16 2 heap_1) (pop_front 16) = Inr heap_2
   \<and> traverse 16 heap_2 = Some (Inr [2])
   \<and> and_then (and_then (and_then (Deque_init first_free Some 16 [5] no_objects) (Deque 32))
         (swap_deque 32 16)) (clear 32) = Inr heap_after_clear
   \<and> empty_deque 16 heap_after_clear = Inr True
   \<and> and_then (push_back first_free Some 16 7 heap_after_clear) (pop_front 16)
       = Inl undefined_behavior
   \<and> and_then (push_back first_free Some 16 7 heap_after_clear) (front 16)
       = Inl undefined_behavior"
proof -
  have "traverse 16 heap_1 = Some (Inr [1])
      \<and> and_then (push_back first_free Some 16 2 heap_1) (pop_front 16) = Inr heap_2
      \<and> traverse 16 heap_2 = Some (Inr [2])"
    by (auto simp: deque_defs heap_1_def heap_2_def traverse_loop.simps fun_upd_def intro!: ext)
  moreover have "and_then (and_then (and_then (Deque_init first_free Some 16 [5] no_objects)
      (Deque 32)) (swap_deque 32 16)) (clear 32) = Inr heap_after_clear"
    by (auto simp: deque_defs move_from_impl_def swap_deque_def clear.simps heap_after_clear_def
        fun_upd_def intro!: ext)
  moreover have "empty_deque 16 heap_after_clear = Inr True"
    by (simp add: deque_defs heap_after_clear_def)
  moreover have "and_then (push_back first_free Some 16 7 heap_after_clear) (pop_front 16)
      = Inl undefined_behavior"
    by (simp add: deque_defs heap_after_clear_def)
  moreover have "and_then (push_back first_free Some 16 7 heap_after_clear) (front 16)
      = Inl undefined_behavior"
    by (simp add: deque_defs front_def heap_after_clear_def)
  ultimately show ?thesis by simp
qed

text \<open>
  C5, for an empty deque whose ring is intact: \<open>size_\<close> is 0 and the sentinel's \<open>prev\<close>
  and \<open>next\<close> are the sentinel itself (\<open>ring \<sigma> d [] []\<close>), as the constructors and
  \<open>clear()\<close> on an intact ring leave it. When the allocation returns a fresh address and
  the copy constructor copies, \<open>push_back(x)\<close> makes \<open>x\<close> the front element and the
  \<open>pop_front()\<close> that follows returns the whole heap, so the deque too, to its state
  before the push; dually \<open>push_front(x)\<close> makes \<open>x\<close> the back element and \<open>pop_back()\<close>
  restores the heap.
\<close>

theorem fifo_round_trip_on_empty_deque:
  assumes e: "ring \<sigma> d [] []" and a: "alloc \<sigma> = Some p" "cells \<sigma> p = None"
    and c: "copy x = Some x"
  shows "(\<exists>\<sigma>1. push_back alloc copy d x \<sigma> = Inr \<sigma>1 \<and> front d \<sigma>1 = Inr x
            \<and> pop_front d \<sigma>1 = Inr \<sigma>)
       \<and> (\<exists>\<sigma>1. push_front alloc copy d x \<sigma> = Inr \<sigma>1 \<and> back_deque d \<sigma>1 = Inr x
            \<and> pop_back d \<sigma>1 = Inr \<sigma>)"
proof -
  from e have s: "sizes \<sigma> d = Some 0" "cells \<sigma> d = Some \<lparr>prev = d, next = d, data = None\<rparr>"
    by (simp_all add: ring_Nil)
  from s(2) a(2) have pd: "p \<noteq> d" by auto
  have cells: "(cells \<sigma>)(p := None, d \<mapsto> \<lparr>prev = d, next = d, data = None\<rparr>) = cells \<sigma>"
    using s(2) a(2) by (auto simp: fun_upd_def)
  have sizes: "(sizes \<sigma>)(d \<mapsto> 0) = sizes \<sigma>"
    using s(1) by (auto simp: fun_upd_def)
  show ?thesis
    using s a c pd cells sizes
    by (simp add: push_back_def push_front_def new_node_impl_def push_back_impl_def
        push_front_impl_def pop_front_def pop_back_def front_def back_deque_def head_impl_def
        tail_impl_def as_node_def get_data_def delete_node_def and_then_def get_prev_def
        get_next_def set_prev_def set_next_def incr_size_def decr_size_def size_deque_def
        set_size_def)
qed

theorem fifo_round_trip_on_empty_deque_witness:
  "ring heap_empty_deque 16 [] [] \<and> first_free heap_empty_deque = Some 1
   \<and> cells heap_empty_deque 1 = None
   \<and> (\<exists>\<sigma>1. push_back first_free Some 16 5 heap_empty_deque = Inr \<sigma>1 \<and> front 16 \<sigma>1 = Inr 5
         \<and> pop_front 16 \<sigma>1 = Inr heap_empty_deque)
   \<and> (\<exists>\<sigma>1. push_front first_free Some 16 5 heap_empty_deque = Inr \<sigma>1
         \<and> back_deque 16 \<sigma>1 = Inr 5 \<and> pop_back 16 \<sigma>1 = Inr heap_empty_deque)"
proof -
  have a: "first_free heap_empty_deque = Some 1" "cells heap_empty_deque 1 = None"
    by (simp_all add: first_free_def heap_empty_deque_def)
  have c: "Some (5 :: nat) = Some 5" by simp
  from fifo_round_trip_on_empty_deque [where alloc = first_free and copy = Some and x = 5
      and p = 1, OF heap_empty_deque_ring a c] heap_empty_deque_ring a
  show ?thesis by simp
qed

text \<open>
  C6. When the allocation or the construction of the element fails, \<open>push_front\<close>,
  \<open>push_back\<close>, \<open>emplace_front\<close> and \<open>emplace_back\<close> throw with the heap as it was before
  the call. When \<open>new node_(...)\<close> succeeds, the rest of the operation is \<open>push_front_\<close>
  or \<open>push_back_\<close> on a heap in which only the new node has been written: no link of the
  ring and no \<open>size_\<close> has changed yet.
\<close>

theorem push_failure_leaves_heap_unchanged:
  "(alloc \<sigma> = None \<or> ctor v = None \<longrightarrow>
      (\<exists>e. push_front alloc ctor this v \<sigma> = Inl (throws e \<sigma>)
         \<and> push_back alloc ctor this v \<sigma> = Inl (throws e \<sigma>)))
   \<and> (alloc \<sigma> = None \<or> dctor () = None \<longrightarrow>
      (\<exists>e. emplace_front alloc dctor this () \<sigma> = Inl (throws e \<sigma>)))
   \<and> (alloc \<sigma> = None \<or> ector args = None \<longrightarrow>
      (\<exists>e. emplace_back alloc ector this args \<sigma> = Inl (throws e \<sigma>)))
   \<and> (\<forall>n \<sigma>1. new_node_impl alloc ctor v \<sigma> = Inr (n, \<sigma>1) \<longrightarrow>
        push_front alloc ctor this v \<sigma> = push_front_impl this n \<sigma>1
      \<and> push_back alloc ctor this v \<sigma> = push_back_impl this n \<sigma>1
      \<and> sizes \<sigma>1 = sizes \<sigma> \<and> (\<forall>q. q \<noteq> n \<longrightarrow> cells \<sigma>1 q = cells \<sigma> q))
   \<and> (\<forall>n \<sigma>1. new_node_impl alloc dctor () \<sigma> = Inr (n, \<sigma>1) \<longrightarrow>
        emplace_front alloc dctor this () \<sigma> = push_front_impl this n \<sigma>1
      \<and> sizes \<sigma>1 = sizes \<sigma> \<and> (\<forall>q. q \<noteq> n \<longrightarrow> cells \<sigma>1 q = cells \<sigma> q))
   \<and> (\<forall>n \<sigma>1. new_node_impl alloc ector args \<sigma> = Inr (n, \<sigma>1) \<longrightarrow>
        emplace_back alloc ector this args \<sigma> = push_back_impl this n \<sigma>1
      \<and> sizes \<sigma>1 = sizes \<sigma> \<and> (\<forall>q. q \<noteq> n \<longrightarrow> cells \<sigma>1 q = cells \<sigma> q))"
  by (auto simp: push_front_def push_back_def emplace_front_def emplace_back_def
      new_node_impl_def and_then_def split: option.splits)

theorem push_failure_leaves_heap_unchanged_witness:
  "(\<exists>e. push_front (\<lambda>\<sigma>. None) Some 16 (5 :: nat) heap_1 = Inl (throws e heap_1)
        \<and> push_back (\<lambda>\<sigma>. None) Some 16 (5 :: nat) heap_1 = Inl (throws e heap_1))
   \<and> push_back (\<lambda>\<sigma>. None) Some 16 (5 :: nat) heap_1 = Inl (throws bad_alloc heap_1)
   \<and> (\<exists>e. emplace_front first_free (\<lambda>u. None) 16 () heap_1 = Inl (throws e heap_1))
   \<and> (\<exists>e. emplace_back first_free (\<lambda>(a, b). if b = 0 then None else Some (a div b)) 16
           (1 :: nat, 0 :: nat) heap_1 = Inl (throws e heap_1))
   \<and> new_node_impl first_free (\<lambda>(a, b). if b = 0 then None else Some (a div b))
           (6 :: nat, 3 :: nat) heap_1
         = Inr (2, heap_1\<lparr>cells := (cells heap_1)
                  (2 \<mapsto> \<lparr>prev = nullptr, next = nullptr, data = Some 2\<rparr>)\<rparr>)
   \<and> emplace_back first_free (\<lambda>(a, b). if b = 0 then None else Some (a div b)) 16
           (6 :: nat, 3 :: nat) heap_1
         = push_back_impl 16 2 (heap_1\<lparr>cells := (cells heap_1)
                  (2 \<mapsto> \<lparr>prev = nullptr, next = nullptr, data = Some 2\<rparr>)\<rparr>)"
proof -
  let ?div = "\<lambda>(a :: nat, b :: nat). if b = 0 then None else Some (a div b)"
  let ?none = "\<lambda>u :: unit. None :: nat option"
  let ?\<sigma>1 = "heap_1\<lparr>cells := (cells heap_1)
                  (2 \<mapsto> \<lparr>prev = nullptr, next = nullptr, data = Some (2 :: nat)\<rparr>)\<rparr>"
  note t1 = push_failure_leaves_heap_unchanged [where alloc = "\<lambda>\<sigma>. None" and \<sigma> = heap_1
      and ctor = Some and v = 5 and dctor = ?none and ector = ?div and args = "(1, 0)"
      and this = 16]
  note t2 = push_failure_leaves_heap_unchanged [where alloc = first_free and \<sigma> = heap_1
      and ctor = Some and v = 5 and dctor = ?none and ector = ?div and args = "(1, 0)"
      and this = 16]
  note t3 = push_failure_leaves_heap_unchanged [where alloc = first_free and \<sigma> = heap_1
      and ctor = Some and v = 5 and dctor = ?none and ector = ?div and args = "(6, 3)"
      and this = 16]
  have a: "\<exists>e. push_front (\<lambda>\<sigma>. None) Some 16 (5 :: nat) heap_1 = Inl (throws e heap_1)
        \<and> push_back (\<lambda>\<sigma>. None) Some 16 (5 :: nat) heap_1 = Inl (throws e heap_1)"
    using t1 [THEN conjunct1] by simp
  have b: "push_back (\<lambda>\<sigma>. None) Some 16 (5 :: nat) heap_1 = Inl (throws bad_alloc heap_1)"
    by (simp add: push_back_def new_node_impl_def and_then_def)
  have f: "\<exists>e. emplace_front first_free ?none 16 () heap_1 = Inl (throws e heap_1)"
    using t2 [THEN conjunct2, THEN conjunct1] by simp
  have c: "\<exists>e. emplace_back first_free ?div 16 (1, 0) heap_1 = Inl (throws e heap_1)"
    using t2 [THEN conjunct2, THEN conjunct2, THEN conjunct1] by simp
  have n: "new_node_impl first_free ?div (6, 3) heap_1 = Inr (2, ?\<sigma>1)"
    by (simp add: new_node_impl_def first_free_def heap_1_def)
  have d: "emplace_back first_free ?div 16 (6, 3) heap_1 = push_back_impl 16 2 ?\<sigma>1"
    using t3 [THEN conjunct2, THEN conjunct2, THEN conjunct2, THEN conjunct2, THEN conjunct2] n
    by blast
  from a b f c n d show ?thesis by blast
qed



section \<open>Move and swap\<close>

text \<open>
  C1. After \<open>Deque b = std::move(a)\<close> the claim wants \<open>a.empty()\<close> and a forward
  traversal of \<open>b\<close> that visits \<open>a\<close>'s former elements and stops at \<open>b.end()\<close>.
  \<open>move_from_\<close> copies the sentinel's two links but leaves the first node's \<open>prev\<close> and
  the last node's \<open>next\<close> pointing at the sentinel of \<open>a\<close>. With \<open>a = {1, 2}\<close> at
  address 16 and \<open>b\<close> at address 32: \<open>a\<close> is empty afterwards and \<open>b.size()\<close> is 2, but
  the last node (at 2) still has \<open>next = &a.sentinel_\<close>, so the traversal of \<open>b\<close> walks
  past its elements onto the sentinel of \<open>a\<close> and dereferences it.
\<close>

theorem move_keeps_links_to_source_sentinel:
  "\<exists>\<sigma>1 \<sigma>2. Deque_init first_free Some 16 [1, 2 :: nat] no_objects = Inr \<sigma>1
     \<and> traverse 16 \<sigma>1 = Some (Inr [1, 2])
     \<and> Deque_move 32 16 \<sigma>1 = Inr \<sigma>2
     \<and> empty_deque 16 \<sigma>2 = Inr True
     \<and> size_deque 32 \<sigma>2 = Inr 2
     \<and> get_next 2 \<sigma>2 = Inr 16
     \<and> traverse 32 \<sigma>2 = Some (Inl undefined_behavior)"
  by (simp add: deque_defs move_from_impl_def Deque_move_def traverse_loop.simps)

text \<open>
  C2. \<open>swap(a, b)\<close> is claimed to exchange the contents of any two deques, empty or not.
  With both sides non-empty the links are exchanged and re-pointed, and the spec's
  scenario \<open>a = {1, 2}\<close>, \<open>b = {9}\<close> comes out right (first three lines of the conclusion
  after the set-up). With \<open>a\<close> empty and \<open>b = {9}\<close> the swap is \<open>a.move_from_(b)\<close>, which
  does not re-point the node's links: \<open>b\<close> is empty afterwards, but the traversal of
  \<open>a\<close> leaves \<open>a\<close>'s ring through the node's \<open>next\<close> and dereferences the sentinel of \<open>b\<close>.
\<close>

theorem swap_with_empty_side_breaks_ring:
  "\<exists>\<sigma>1 \<sigma>2 \<sigma>3 \<tau>1 \<tau>2 \<tau>3.
       Deque_init first_free Some 16 [1, 2 :: nat] no_objects = Inr \<sigma>1
     \<and> Deque_init first_free Some 32 [9] \<sigma>1 = Inr \<sigma>2
     \<and> swap_deque 16 32 \<sigma>2 = Inr \<sigma>3
     \<and> traverse 16 \<sigma>3 = Some (Inr [9])
     \<and> traverse 32 \<sigma>3 = Some (Inr [1, 2])
     \<and> Deque 16 no_objects = Inr \<tau>1
     \<and> Deque_init first_free Some 32 [9 :: nat] \<tau>1 = Inr \<tau>2
     \<and> traverse 16 \<tau>2 = Some (Inr [])
     \<and> traverse 32 \<tau>2 = Some (Inr [9])
     \<and> swap_deque 16 32 \<tau>2 = Inr \<tau>3
     \<and> traverse 32 \<tau>3 = Some (Inr [])
     \<and> traverse 16 \<tau>3 = Some (Inl undefined_behavior)"
  by (simp add: deque_defs move_from_impl_def swap_sentinels_def swap_sizes_def swap_deque_def
      traverse_loop.simps)

text \<open>
  C3. The ring invariant is claimed for every deque the public operations can build, move
  and swap included. After \<open>Deque a{5}; Deque b; b.swap(a);\<close> (\<open>a\<close> at 16, \<open>b\<close> at 32,
  the node at 1) the swap has run \<open>b.move_from_(std::move(a))\<close>: \<open>b.size()\<close> is 1, but
  following \<open>next\<close> from \<open>b\<close>'s sentinel leads to the node, then to \<open>a\<close>'s sentinel, and
  stays there. It never comes back to \<open>b\<close>'s sentinel, and the forward traversal of
  \<open>b\<close> does not produce one element. After \<open>b.clear()\<close> both deques have size 0, yet
  \<open>b.sentinel_.next\<close> is \<open>a\<close>'s sentinel and \<open>a.sentinel_.prev\<close> is \<open>b\<close>'s.
\<close>

theorem ring_invariant_lost_by_move:
  "\<exists>\<sigma>0 \<sigma>1 \<sigma>2 \<sigma>3. Deque_init first_free Some 16 [5 :: nat] no_objects = Inr \<sigma>0
     \<and> Deque 32 \<sigma>0 = Inr \<sigma>1
     \<and> swap_deque 32 16 \<sigma>1 = Inr \<sigma>2
     \<and> size_deque 32 \<sigma>2 = Inr 1
     \<and> get_next 32 \<sigma>2 = Inr 1 \<and> get_next 1 \<sigma>2 = Inr 16 \<and> get_next 16 \<sigma>2 = Inr 16
     \<and> traverse 32 \<sigma>2 = Some (Inl undefined_behavior)
     \<and> clear 32 \<sigma>2 = Inr \<sigma>3
     \<and> size_deque 32 \<sigma>3 = Inr 0 \<and> get_next 32 \<sigma>3 = Inr 16
     \<and> size_deque 16 \<sigma>3 = Inr 0 \<and> get_prev 16 \<sigma>3 = Inr 32"
  by (simp add: deque_defs move_from_impl_def swap_sentinels_def swap_sizes_def swap_deque_def
      traverse_loop.simps clear.simps)

end
